theory Spec2Isabelle
  imports Main "HOL-Library.Word"
begin

section \<open>The wire-format codec of the Cursor API proxy (src/utils.js)\<close>

text \<open>
  The development embeds the two entry points of \<^verbatim>\<open>src/utils.js\<close>,
  \<^verbatim>\<open>stringToHex\<close> (request direction) and \<^verbatim>\<open>chunkToUtf8String\<close> with its helper
  \<^verbatim>\<open>gunzip\<close> (response direction).

  \<^item> A \<^verbatim>\<open>Buffer\<close> is a list of bytes (\<open>8 word\<close>).
  \<^item> A JavaScript string is a list of UTF-16 code units (\<open>16 word\<close>).  The hexadecimal
    renderings the codec builds hold ASCII characters only; they are modelled as
    \<open>string\<close>, one \<open>char\<close> per code unit.
  \<^item> A string has at most \<^verbatim>\<open>buffer.constants.MAX_STRING_LENGTH\<close> characters
    (\<^verbatim>\<open>0x1fffffe8\<close> on 64-bit V8); building a longer one throws.
  \<^item> A thrown exception or a rejected promise is \<open>Inl\<close> of an \<open>error\<close>, a returned
    value or a resolved promise is \<open>Inr\<close>.
  \<^item> The protobuf classes of \<^verbatim>\<open>./message.js\<close>, the library functions of
    \<^verbatim>\<open>zlib\<close>, \<^verbatim>\<open>uuid\<close> and \<^verbatim>\<open>Buffer\<close> and the string cap of the engine are not part
    of the two source files; they are the fields of the record \<open>externals\<close>, and every
    definition takes them as a parameter.
\<close>

subsection \<open>Bytes, strings and errors\<close>

type_synonym byte = "8 word"
type_synonym jsstring = "16 word list"

text \<open>An ASCII literal of the source as a JavaScript string.\<close>

definition js :: "string \<Rightarrow> jsstring" where
  "js s = map (\<lambda>c. word_of_nat (of_char c)) s"

text \<open>
  \<open>Error m\<close> is an \<^verbatim>\<open>Error\<close> with message \<open>m\<close>.  \<open>ERR_STRING_TOO_LONG\<close> is what
  \<^verbatim>\<open>buf.toString\<close> throws when its result would pass the string cap, and
  \<open>RangeError_Invalid_string_length\<close> what a concatenation throws then.
\<close>

datatype error = Error jsstring | ERR_STRING_TOO_LONG | RangeError_Invalid_string_length

subsection \<open>The environment: message.js, zlib, uuid, the engine\<close>

text \<open>
  A JavaScript value as far as the request builder looks at one, and an object as a map
  from property names to values.
\<close>

datatype jsval = JUndefined | JNull | JBool bool | JNum int | JStr jsstring

type_synonym jsobject = "string \<rightharpoonup> jsval"

text \<open>The object literal \<^verbatim>\<open>message\<close> of lines 27-40, nested objects flattened.\<close>

record ChatMessage =
  messages :: "jsobject list"
  instruction :: jsstring
  projectPath :: jsstring
  model_name :: jsval
  model_empty :: jsstring
  requestId :: jsstring
  summary :: jsstring
  conversationId :: jsstring

text \<open>
  What the two source files use and do not define.
  \<^item> \<open>ChatMessage_verify\<close>: \<^verbatim>\<open>$root.ChatMessage.verify\<close>, \<open>None\<close> for \<^verbatim>\<open>null\<close>, otherwise
    the diagnostic string.
  \<^item> \<open>ChatMessage_encode\<close>: \<^verbatim>\<open>$root.ChatMessage.encode($root.ChatMessage.create(m)).finish()\<close>.
  \<^item> \<open>ResMessage_decode\<close>: \<^verbatim>\<open>$root.ResMessage.decode(buf).msg\<close>, \<open>Inl\<close> when decode throws.
  \<^item> \<open>zlib_gunzip\<close>: \<^verbatim>\<open>zlib.gunzip\<close>, \<open>Inl\<close> when the callback receives \<^verbatim>\<open>err\<close>.
  \<^item> \<open>toString_utf8\<close>: \<^verbatim>\<open>buf.toString('utf-8')\<close>.
  \<^item> \<open>uuidv4\<close>: the identifier that the \<open>n\<close>-th call of \<^verbatim>\<open>uuidv4()\<close> returns.
  \<^item> \<open>MAX_STRING_LENGTH\<close>: the largest length of a string.
\<close>

record externals =
  ChatMessage_verify :: "ChatMessage \<Rightarrow> jsstring option"
  ChatMessage_encode :: "ChatMessage \<Rightarrow> byte list"
  ResMessage_decode :: "byte list \<Rightarrow> error + jsstring"
  zlib_gunzip :: "byte list \<Rightarrow> error + byte list"
  toString_utf8 :: "byte list \<Rightarrow> jsstring"
  uuidv4 :: "nat \<Rightarrow> jsstring"
  MAX_STRING_LENGTH :: nat

text \<open>
  The state outside the two functions: how many identifiers the random source has handed
  out, the property \<^verbatim>\<open>lastIndex\<close> of the module-level object \<^verbatim>\<open>regex\<close> (line 10), and
  the calls made so far to the serializer, to \<^verbatim>\<open>gunzip\<close> (with its chunk) and to
  \<^verbatim>\<open>zlib.gunzip\<close> (with its input).
\<close>

datatype event = Call_encode | Call_gunzip "byte list" | Call_zlib "byte list"

record world =
  draws :: nat
  lastIndex :: nat
  calls :: "event list"

subsection \<open>Hexadecimal renderings\<close>

text \<open>
  \<^verbatim>\<open>buf.toString('hex')\<close> and \<^verbatim>\<open>n.toString(16)\<close> write the digits \<^verbatim>\<open>0-9a-f\<close>.
  Digit \<open>d\<close> (below 16) is the character with code \<open>48 + d\<close> or \<open>87 + d\<close>.
\<close>

definition hex_digit :: "nat \<Rightarrow> char" where
  "hex_digit d = (if d < 10 then char_of (48 + d) else char_of (87 + d))"

text \<open>
  The value of a hexadecimal character, as \<^verbatim>\<open>Buffer.from(s, 'hex')\<close> and \<^verbatim>\<open>parseInt(s, 16)\<close>
  read it: both cases of the letters are accepted, anything else is no digit.
\<close>

definition unhex :: "char \<Rightarrow> nat option" where
  "unhex c =
     (let n = (of_char c :: nat) in
      if 48 \<le> n \<and> n \<le> 57 then Some (n - 48)
      else if 97 \<le> n \<and> n \<le> 102 then Some (n - 87)
      else if 65 \<le> n \<and> n \<le> 70 then Some (n - 55)
      else None)"

text \<open>The characters of a hexadecimal rendering: two lowercase digits per byte, high nibble first.\<close>

definition hex_of_bytes :: "byte list \<Rightarrow> string" where
  "hex_of_bytes buf = concat (map (\<lambda>b. [hex_digit (unat b div 16), hex_digit (unat b mod 16)]) buf)"

text \<open>
  \<^verbatim>\<open>buf.toString('hex')\<close>: the rendering has two characters per byte; when that passes
  the string cap the call throws and there is no string.
\<close>

definition toString_hex :: "externals \<Rightarrow> byte list \<Rightarrow> error + string" where
  "toString_hex E buf =
     (if MAX_STRING_LENGTH E < 2 * length buf then Inl ERR_STRING_TOO_LONG
      else Inr (hex_of_bytes buf))"

text \<open>
  \<^verbatim>\<open>Buffer.from(s, 'hex')\<close>: one byte per pair of hexadecimal characters; decoding stops
  at the first pair that is not hexadecimal, and a single trailing character is dropped.
\<close>

fun buffer_from_hex :: "string \<Rightarrow> byte list" where
  "buffer_from_hex (a # b # cs) =
     (case unhex a of
        None \<Rightarrow> []
      | Some x \<Rightarrow>
          (case unhex b of
             None \<Rightarrow> []
           | Some y \<Rightarrow> word_of_nat (x * 16 + y) # buffer_from_hex cs))"
| "buffer_from_hex cs = []"

text \<open>\<^verbatim>\<open>n.toString(16)\<close> for a non-negative integer: no leading zeros, \<^verbatim>\<open>"0"\<close> for 0.\<close>

function toString16 :: "nat \<Rightarrow> string" where
  "toString16 n = (if n < 16 then [hex_digit n] else toString16 (n div 16) @ [hex_digit (n mod 16)])"
  by pat_completeness auto
termination
  by (relation "measure id") auto

declare toString16.simps [simp del]

text \<open>\<^verbatim>\<open>s.padStart(k, c)\<close> with a one-character filler: nothing is cut when \<open>s\<close> is longer.\<close>

definition padStart :: "nat \<Rightarrow> char \<Rightarrow> string \<Rightarrow> string" where
  "padStart k c s = replicate (k - length s) c @ s"

text \<open>
  \<^verbatim>\<open>s.toUpperCase()\<close> on the ASCII range: \<^verbatim>\<open>a-z\<close> become \<^verbatim>\<open>A-Z\<close>, every other ASCII
  character stays.  The codec applies it to hexadecimal renderings only.
\<close>

definition upper_char :: "char \<Rightarrow> char" where
  "upper_char c =
     (let n = (of_char c :: nat) in if 97 \<le> n \<and> n \<le> 122 then char_of (n - 32) else c)"

definition toUpperCase :: "string \<Rightarrow> string" where
  "toUpperCase s = map upper_char s"

text \<open>
  \<^verbatim>\<open>s.slice(a, b)\<close> for non-negative indices: the characters from \<open>a\<close> up to, not
  including, \<open>b\<close>, clamped to the string; empty when \<open>b \<le> a\<close>.
\<close>

definition slice :: "'a list \<Rightarrow> nat \<Rightarrow> nat \<Rightarrow> 'a list" where
  "slice s a b = take (b - a) (drop a s)"

text \<open>
  \<^verbatim>\<open>parseInt(s, 16)\<close> on a slice of a hexadecimal rendering (no white space, sign or
  \<^verbatim>\<open>0x\<close> prefix can occur there): the value of the longest prefix of hexadecimal digits,
  \<open>None\<close> for \<^verbatim>\<open>NaN\<close> when there is no such digit.  The slices read by the codec have
  10 digits, so the value is below \<open>2 ^ 40\<close> and exact as a JavaScript number.
\<close>

definition parseInt16 :: "string \<Rightarrow> nat option" where
  "parseInt16 s =
     (let ds = takeWhile (\<lambda>c. unhex c \<noteq> None) s in
      if ds = [] then None
      else Some (foldl (\<lambda>acc c. acc * 16 + the (unhex c)) 0 ds))"

subsection \<open>The frame encoder (lines 55-58 of stringToHex)\<close>

text \<open>
  \<^verbatim>\<open>
  const hexString = (buffer.length.toString(16).padStart(10, '0') + buffer.toString('hex')).toUpperCase();
  return Buffer.from(hexString, 'hex');
  \<close>
  The prefix is built first, then the rendering of the buffer (which throws beyond the
  cap), then the concatenation (which throws when the two together pass the cap);
  \<^verbatim>\<open>toUpperCase\<close> keeps the length.
\<close>

definition hexString :: "externals \<Rightarrow> byte list \<Rightarrow> error + string" where
  "hexString E buffer =
     (let prefix = padStart 10 (CHR ''0'') (toString16 (length buffer))
      in case toString_hex E buffer of
           Inl err \<Rightarrow> Inl err
         | Inr hex \<Rightarrow>
             if MAX_STRING_LENGTH E < length prefix + length hex
             then Inl RangeError_Invalid_string_length
             else Inr (toUpperCase (prefix @ hex)))"

definition frame_encode :: "externals \<Rightarrow> byte list \<Rightarrow> error + byte list" where
  "frame_encode E buffer =
     (case hexString E buffer of
        Inl err \<Rightarrow> Inl err
      | Inr s \<Rightarrow> Inr (buffer_from_hex s))"

subsection \<open>stringToHex (lines 18-59)\<close>

text \<open>
  \<^verbatim>\<open>{ ...msg, role: msg.role === 'user' ? 1 : 2, message_id: uuidv4() }\<close>
\<close>

definition formattedMessage :: "jsobject \<Rightarrow> jsstring \<Rightarrow> jsobject" where
  "formattedMessage msg uuid =
     msg(''role'' \<mapsto> JNum (if msg ''role'' = Some (JStr (js ''user'')) then 1 else 2),
         ''message_id'' \<mapsto> JStr uuid)"

text \<open>
  Lines 20-40: one identifier per message, in order, then the request id and the
  conversation id.
\<close>

definition build_message :: "externals \<Rightarrow> world \<Rightarrow> jsobject list \<Rightarrow> jsval \<Rightarrow> ChatMessage \<times> world" where
  "build_message E w msgs modelName =
     (let n = draws w;
          formattedMessages =
            map (\<lambda>(msg, i). formattedMessage msg (uuidv4 E i)) (zip msgs [n ..< n + length msgs]);
          n1 = n + length msgs
      in (\<lparr>messages = formattedMessages,
           instruction = js ''Always respond in '' @ [0x4E2D, 0x6587],
           projectPath = js ''/path/to/project'',
           model_name = modelName,
           model_empty = [],
           requestId = uuidv4 E n1,
           summary = [],
           conversationId = uuidv4 E (n1 + 1)\<rparr>,
          w\<lparr>draws := n1 + 2\<rparr>))"

text \<open>Lines 47-58: create, encode, frame.\<close>

definition serialize :: "externals \<Rightarrow> world \<Rightarrow> ChatMessage \<Rightarrow> (error + byte list) \<times> world" where
  "serialize E w message =
     (let buffer = ChatMessage_encode E message
      in (frame_encode E buffer, w\<lparr>calls := calls w @ [Call_encode]\<rparr>))"

text \<open>
  Lines 43-44: \<^verbatim>\<open>if (errMsg) throw Error(errMsg)\<close>.  \<^verbatim>\<open>null\<close> and the empty string are
  falsy, every other string is truthy.
\<close>

definition stringToHex :: "externals \<Rightarrow> world \<Rightarrow> jsobject list \<Rightarrow> jsval \<Rightarrow> (error + byte list) \<times> world" where
  "stringToHex E w msgs modelName =
     (case build_message E w msgs modelName of
        (message, w1) \<Rightarrow>
          (case ChatMessage_verify E message of
             None \<Rightarrow> serialize E w1 message
           | Some errMsg \<Rightarrow>
               if errMsg = [] then serialize E w1 message else (Inl (Error errMsg), w1)))"

subsection \<open>gunzip (lines 113-132) and the sentinel pattern (line 10)\<close>

text \<open>
  \<^verbatim>\<open>/<\|BEGIN_SYSTEM\|>.*?<\|END_SYSTEM\|>.*?<\|BEGIN_USER\|>.*?<\|END_USER\|>/s\<close>

  With the flag \<^verbatim>\<open>s\<close> the dot matches every code unit.  A match that starts at the
  leftmost \<^verbatim>\<open><|BEGIN_SYSTEM|>\<close> exists when any match does, and each lazy \<^verbatim>\<open>.*?\<close> stops
  at the first place where the next literal is found.
\<close>

definition BEGIN_SYSTEM :: jsstring where "BEGIN_SYSTEM = js ''<|BEGIN_SYSTEM|>''"
definition END_SYSTEM :: jsstring where "END_SYSTEM = js ''<|END_SYSTEM|>''"
definition BEGIN_USER :: jsstring where "BEGIN_USER = js ''<|BEGIN_USER|>''"
definition END_USER :: jsstring where "END_USER = js ''<|END_USER|>''"

text \<open>The text after the leftmost occurrence of a literal, if there is one.\<close>

fun find_after :: "'a list \<Rightarrow> 'a list \<Rightarrow> 'a list option" where
  "find_after lit [] = (if lit = [] then Some [] else None)"
| "find_after lit (c # cs) =
     (if take (length lit) (c # cs) = lit then Some (drop (length lit) (c # cs))
      else find_after lit cs)"

text \<open>The search for the pattern: the text after the match, if there is one.\<close>

definition regex_search :: "jsstring \<Rightarrow> jsstring option" where
  "regex_search str =
     (case find_after BEGIN_SYSTEM str of
        None \<Rightarrow> None
      | Some t1 \<Rightarrow>
          (case find_after END_SYSTEM t1 of
             None \<Rightarrow> None
           | Some t2 \<Rightarrow>
               (case find_after BEGIN_USER t2 of
                  None \<Rightarrow> None
                | Some t3 \<Rightarrow> find_after END_USER t3)))"

definition regex_test :: "jsstring \<Rightarrow> bool" where
  "regex_test str = (regex_search str \<noteq> None)"

text \<open>
  \<^verbatim>\<open>RegExp.prototype.test\<close> on an object whose pattern is the one above, with or without
  the flag \<^verbatim>\<open>g\<close> (the flag \<^verbatim>\<open>y\<close> is left out).  The arguments are the flag, the object's
  \<^verbatim>\<open>lastIndex\<close> and the string; the result is the answer and the new \<^verbatim>\<open>lastIndex\<close>.
  With \<^verbatim>\<open>g\<close> the search starts at \<^verbatim>\<open>lastIndex\<close>, which becomes the end of the match, or 0
  when there is none; without it the search starts at 0 and \<^verbatim>\<open>lastIndex\<close> is left alone.
\<close>

definition RegExp_test :: "bool \<Rightarrow> nat \<Rightarrow> jsstring \<Rightarrow> bool \<times> nat" where
  "RegExp_test global li str =
     (let start = (if global then li else 0)
      in if length str < start then (False, if global then 0 else li)
         else
           (case regex_search (drop start str) of
              None \<Rightarrow> (False, if global then 0 else li)
            | Some rest \<Rightarrow> (True, if global then length str - length rest else li)))"

text \<open>The flags of \<^verbatim>\<open>regex\<close> in line 10 are \<^verbatim>\<open>s\<close> alone.\<close>

definition regex_global :: bool where
  "regex_global = False"

text \<open>
  The promise of \<^verbatim>\<open>gunzip\<close> is resolved on every path. \<^verbatim>\<open>chunk.slice(5)\<close> is the chunk
  without its first five bytes (empty when the chunk has five bytes or fewer).
\<close>

definition gunzip :: "externals \<Rightarrow> world \<Rightarrow> byte list \<Rightarrow> (error + jsstring) \<times> world" where
  "gunzip E w chunk =
     (let w1 = w\<lparr>calls := calls w @ [Call_gunzip chunk, Call_zlib (drop 5 chunk)]\<rparr>
      in case zlib_gunzip E (drop 5 chunk) of
           Inl err \<Rightarrow> (Inr [], w1)
         | Inr decompressed \<Rightarrow>
             (let text = toString_utf8 E decompressed;
                  tested = RegExp_test regex_global (lastIndex w1) text;
                  w2 = w1\<lparr>lastIndex := snd tested\<rparr>
              in if fst tested then (Inr [], w2) else (Inr text, w2)))"

subsection \<open>chunkToUtf8String (lines 66-106)\<close>

text \<open>
  The \<^verbatim>\<open>while\<close> loop of lines 75-94, with \<^verbatim>\<open>offset\<close> and \<^verbatim>\<open>results\<close> as arguments.
  \<open>Inl\<close> is the exception of \<^verbatim>\<open>ResMessage.decode\<close> leaving the loop.

  When \<^verbatim>\<open>parseInt\<close> gives \<^verbatim>\<open>NaN\<close>, the comparison of line 84 is false,
  \<^verbatim>\<open>hex.slice(offset, NaN)\<close> is empty, \<^verbatim>\<open>offset\<close> becomes \<^verbatim>\<open>NaN\<close> and the loop ends
  after decoding the empty buffer.
\<close>

function parse_loop :: "externals \<Rightarrow> string \<Rightarrow> nat \<Rightarrow> jsstring list \<Rightarrow> error + jsstring list" where
  "parse_loop E hex offset results =
     (if offset < length hex then
        if offset + 10 > length hex then Inr results
        else
          (case parseInt16 (slice hex offset (offset + 10)) of
             None \<Rightarrow>
               (case ResMessage_decode E (buffer_from_hex []) of
                  Inl err \<Rightarrow> Inl err
                | Inr msg \<Rightarrow> Inr (results @ [msg]))
           | Some dataLength \<Rightarrow>
               if offset + 10 + dataLength * 2 > length hex then Inr results
               else
                 (case ResMessage_decode E
                         (buffer_from_hex (slice hex (offset + 10) (offset + 10 + dataLength * 2))) of
                    Inl err \<Rightarrow> Inl err
                  | Inr msg \<Rightarrow> parse_loop E hex (offset + 10 + dataLength * 2) (results @ [msg])))
      else Inr results)"
  by pat_completeness auto
termination
  by (relation "measure (\<lambda>(E, hex, offset, results). length hex - offset)") auto

declare parse_loop.simps [simp del]

text \<open>
  Lines 68-94, the \<^verbatim>\<open>try\<close> block up to the end of the loop: the rendering of line 69,
  then the loop.  \<open>Inl\<close> is an exception on its way to the \<^verbatim>\<open>catch\<close> block, from the
  rendering or from the decoder.
\<close>

definition try_block :: "externals \<Rightarrow> byte list \<Rightarrow> error + jsstring list" where
  "try_block E chunk =
     (case toString_hex E chunk of
        Inl err \<Rightarrow> Inl err
      | Inr hex \<Rightarrow> parse_loop E hex 0 [])"

text \<open>
  Lines 96-105: \<^verbatim>\<open>results.join('')\<close> is the concatenation of the pieces; an empty
  \<^verbatim>\<open>results\<close> returns \<^verbatim>\<open>gunzip(chunk)\<close>, and so does the \<^verbatim>\<open>catch\<close> block, for every
  exception of the \<^verbatim>\<open>try\<close> block.  (The pieces are decoded from disjoint parts of a
  chunk whose rendering, twice as long, is a string: their concatenation is taken to be
  one too.)
\<close>

definition chunkToUtf8String :: "externals \<Rightarrow> world \<Rightarrow> byte list \<Rightarrow> (error + jsstring) \<times> world" where
  "chunkToUtf8String E w chunk =
     (case try_block E chunk of
        Inr results \<Rightarrow>
          if length results = 0 then gunzip E w chunk else (Inr (concat results), w)
      | Inl err \<Rightarrow> gunzip E w chunk)"

section \<open>Specification-level definitions\<close>

text \<open>
  The definitions of this section do not embed source code.  They state, in the words of
  the specification, what the codec is compared with.
\<close>

subsection \<open>The frame as the specification describes it\<close>

text \<open>An uppercase hexadecimal digit.\<close>

definition HEX :: "nat \<Rightarrow> char" where
  "HEX d = ''0123456789ABCDEF'' ! d"

text \<open>
  "A textual length prefix of exactly 10 hexadecimal characters (uppercase), representing
  the payload's byte length left-padded with zeros": the ten digits of \<open>n\<close> in base 16,
  most significant first.
\<close>

definition spec_length_prefix :: "nat \<Rightarrow> string" where
  "spec_length_prefix n =
     [HEX (n div 16 ^ 9 mod 16), HEX (n div 16 ^ 8 mod 16), HEX (n div 16 ^ 7 mod 16),
      HEX (n div 16 ^ 6 mod 16), HEX (n div 16 ^ 5 mod 16), HEX (n div 16 ^ 4 mod 16),
      HEX (n div 16 ^ 3 mod 16), HEX (n div 16 ^ 2 mod 16), HEX (n div 16 mod 16),
      HEX (n mod 16)]"

text \<open>"The payload's own bytes rendered as hexadecimal text (uppercase)."\<close>

definition spec_payload_hex :: "byte list \<Rightarrow> string" where
  "spec_payload_hex p = concat (map (\<lambda>b. [HEX (unat b div 16), HEX (unat b mod 16)]) p)"

text \<open>
  "The whole concatenation then interpreted as one hexadecimal string and converted back
  into raw bytes."
\<close>

definition spec_frame :: "byte list \<Rightarrow> byte list" where
  "spec_frame p = buffer_from_hex (spec_length_prefix (length p) @ spec_payload_hex p)"

text \<open>The five bytes of a length prefix, most significant first, and the number they hold.\<close>

definition spec_len_bytes :: "nat \<Rightarrow> byte list" where
  "spec_len_bytes n =
     [word_of_nat (n div 2 ^ 32), word_of_nat (n div 2 ^ 24), word_of_nat (n div 2 ^ 16),
      word_of_nat (n div 2 ^ 8), word_of_nat n]"

definition spec_be_nat :: "byte list \<Rightarrow> nat" where
  "spec_be_nat bs = foldl (\<lambda>acc b. acc * 256 + unat b) 0 bs"

text \<open>
  A frame on the wire, in the response direction: "5-byte-length-as-10-hex-chars +
  schema-encoded-payload-bytes".
\<close>

definition spec_wire_frame :: "byte list \<Rightarrow> byte list" where
  "spec_wire_frame p = spec_len_bytes (length p) @ p"

text \<open>The digits of \<open>n\<close> in base 16 on \<open>k\<close> places, lowercase (used in the proofs only).\<close>

primrec fixed_hex :: "nat \<Rightarrow> nat \<Rightarrow> string" where
  "fixed_hex 0 n = []"
| "fixed_hex (Suc k) n = fixed_hex k (n div 16) @ [hex_digit (n mod 16)]"

subsection \<open>The frames of a chunk, on bytes\<close>

text \<open>
  "Sequence of frames, each = 5-byte-length-as-10-hex-chars + schema-encoded-payload-bytes,
  concatenated with no separators; any trailing incomplete frame in a chunk is dropped."
  \<open>spec_frames\<close> gives the payloads of the complete frames at the head of a chunk.
\<close>

function spec_frames :: "byte list \<Rightarrow> byte list list" where
  "spec_frames chunk =
     (if length chunk < 5 then []
      else
        (let n = spec_be_nat (take 5 chunk)
         in if length chunk < 5 + n then []
            else take n (drop 5 chunk) # spec_frames (drop (5 + n) chunk)))"
  by pat_completeness auto
termination
  by (relation "measure length") auto

declare spec_frames.simps [simp del]

text \<open>
  Decoding the payloads in frame order, appending each text to the accumulator; the
  first decode error ends the run.
\<close>

fun spec_decode_all :: "externals \<Rightarrow> byte list list \<Rightarrow> jsstring list \<Rightarrow> error + jsstring list" where
  "spec_decode_all E [] results = Inr results"
| "spec_decode_all E (p # ps) results =
     (case ResMessage_decode E p of
        Inl err \<Rightarrow> Inl err
      | Inr msg \<Rightarrow> spec_decode_all E ps (results @ [msg]))"

subsection \<open>The sentinel pattern as a property of the text\<close>


subsection \<open>A sample environment\<close>

text \<open>
  Stand-ins for the external functions, to run the codec on concrete inputs: the
  verifier rejects a missing model name, the decoder rejects the payload \<open>[0xFF]\<close> (a
  field tag cut short, which no protobuf reader accepts) and reads every other payload as
  Latin-1 text (the empty payload as the empty text, the default of a protobuf string
  field), the decompressor rejects an input that does not start with the two magic bytes
  of gzip or is shorter than a gzip header and otherwise strips ten bytes, and the string
  cap is that of 64-bit V8.
\<close>

definition sample_env :: externals where
  "sample_env =
     \<lparr>ChatMessage_verify =
        (\<lambda>m. if model_name m = JUndefined then Some (js ''model.name: string expected'') else None),
      ChatMessage_encode = (\<lambda>m. [0x68, 0x69]),
      ResMessage_decode =
        (\<lambda>buf. if buf = [0xFF] then Inl (Error (js ''index out of range'')) else Inr (map ucast buf)),
      zlib_gunzip =
        (\<lambda>buf. if take 2 buf = [0x1F, 0x8B] \<and> 10 \<le> length buf then Inr (drop 10 buf)
              else Inl (Error (js ''incorrect header check''))),
      toString_utf8 = map ucast,
      uuidv4 = (\<lambda>n. replicate (Suc n) 0x30),
      MAX_STRING_LENGTH = 0x1fffffe8\<rparr>"

definition sample_world :: world where
  "sample_world = \<lparr>draws = 0, lastIndex = 0, calls = []\<rparr>"

section \<open>Hexadecimal renderings and the frame encoder\<close>

lemma unat_byte_lt: "unat (b::byte) < 256"
  using unsigned_less [of b, where 'a = nat] by simp

lemma unhex_hex_digit: "d < 16 \<Longrightarrow> unhex (hex_digit d) = Some d"
  by (simp add: unhex_def hex_digit_def Let_def)

lemma lt16_cases:
  "d < 16 \<Longrightarrow> d \<in> {0, 1, 2, 3, 4, 5, 6, 7, 8, 9, 10, 11, 12, 13, 14, 15::nat}"
  by (simp only: insert_iff empty_iff) arith

lemma upper_hex_digit: "d < 16 \<Longrightarrow> upper_char (hex_digit d) = HEX d"
  by (drule lt16_cases) (auto simp: upper_char_def hex_digit_def HEX_def Let_def char_of_eq_iff)

lemma unhex_upper_hex_digit: "d < 16 \<Longrightarrow> unhex (upper_char (hex_digit d)) = Some d"
  by (simp add: unhex_def upper_char_def hex_digit_def Let_def)

lemma unhex_HEX: "d < 16 \<Longrightarrow> unhex (HEX d) = Some d"
  by (simp add: upper_hex_digit [symmetric] unhex_upper_hex_digit)

lemma toUpperCase_append: "toUpperCase (a @ b) = toUpperCase a @ toUpperCase b"
  by (simp add: toUpperCase_def)

lemma hex_digit_0: "hex_digit 0 = CHR ''0''"
  by (simp add: hex_digit_def char_of_eq_iff)

lemma fixed_hex_zero: "fixed_hex k 0 = replicate k (CHR ''0'')"
  by (induction k) (simp_all add: hex_digit_0 replicate_append_same)

lemma padStart_toString16:
  "n < 16 ^ Suc k \<Longrightarrow> padStart (Suc k) (CHR ''0'') (toString16 n) = fixed_hex (Suc k) n"
proof (induction k arbitrary: n)
  case 0
  then show ?case by (simp add: toString16.simps padStart_def)
next
  case (Suc k)
  show ?case
  proof (cases "n < 16")
    case True
    then show ?thesis
      by (simp add: toString16.simps padStart_def fixed_hex_zero replicate_append_same)
  next
    case False
    from Suc.prems have lt: "n div 16 < 16 ^ Suc k" by (simp add: less_mult_imp_div_less)
    have "padStart (Suc (Suc k)) (CHR ''0'') (toString16 n)
            = padStart (Suc k) (CHR ''0'') (toString16 (n div 16)) @ [hex_digit (n mod 16)]"
      using False by (simp add: toString16.simps [of n] padStart_def)
    with Suc.IH [OF lt] show ?thesis by simp
  qed
qed

lemma hex_of_bytes_Nil: "hex_of_bytes [] = []"
  by (simp add: hex_of_bytes_def)

lemma hex_of_bytes_Cons:
  "hex_of_bytes (b # bs) = hex_digit (unat b div 16) # hex_digit (unat b mod 16) # hex_of_bytes bs"
  by (simp add: hex_of_bytes_def)

lemma hex_of_bytes_append: "hex_of_bytes (xs @ ys) = hex_of_bytes xs @ hex_of_bytes ys"
  by (simp add: hex_of_bytes_def)

lemma length_hex_of_bytes: "length (hex_of_bytes bs) = 2 * length bs"
  by (induction bs) (simp_all add: hex_of_bytes_Nil hex_of_bytes_Cons)

subsection \<open>The string built by the encoder is the string of the specification\<close>

lemma toUpperCase_hex_of_bytes: "toUpperCase (hex_of_bytes p) = spec_payload_hex p"
  by (induction p)
     (simp_all add: toUpperCase_def hex_of_bytes_def spec_payload_hex_def upper_hex_digit
        unat_byte_lt less_mult_imp_div_less)

lemma fixed_hex_digits:
  "fixed_hex k n = map (\<lambda>i. hex_digit (n div 16 ^ (k - Suc i) mod 16)) [0..<k]"
proof (induction k arbitrary: n)
  case 0
  show ?case by simp
next
  case (Suc k)
  have "n div 16 div 16 ^ (k - Suc i) = n div 16 ^ (k - i)" if "i < k" for i
  proof -
    from that have "k - i = Suc (k - Suc i)" by simp
    then show ?thesis by (simp add: div_mult2_eq)
  qed
  then show ?case by (simp add: Suc.IH)
qed

lemma toUpperCase_fixed_hex_10: "toUpperCase (fixed_hex 10 n) = spec_length_prefix n"
proof -
  have "[0..<10] = [0, 1, 2, 3, 4, 5, 6, 7, 8, 9::nat]"
    by (simp add: upt_rec)
  then show ?thesis
    by (simp add: fixed_hex_digits toUpperCase_def spec_length_prefix_def upper_hex_digit)
qed

lemma length_spec_length_prefix: "length (spec_length_prefix n) = 10"
  by (simp add: spec_length_prefix_def)

lemma length_fixed_hex: "length (fixed_hex k n) = k"
  by (induction k arbitrary: n) simp_all

lemma hexString_spec:
  assumes "length p < 16 ^ 10" and "10 + 2 * length p \<le> MAX_STRING_LENGTH E"
  shows "hexString E p = Inr (spec_length_prefix (length p) @ spec_payload_hex p)"
proof -
  have pre: "padStart 10 (CHR ''0'') (toString16 (length p)) = fixed_hex 10 (length p)"
    using padStart_toString16 [of "length p" 9] assms(1) by simp
  from assms(2) have "toString_hex E p = Inr (hex_of_bytes p)"
    by (simp add: toString_hex_def)
  with assms(2) show ?thesis
    by (simp add: hexString_def pre length_fixed_hex length_hex_of_bytes toUpperCase_append
          toUpperCase_hex_of_bytes toUpperCase_fixed_hex_10)
qed

lemma hexString_too_long:
  "MAX_STRING_LENGTH E < 2 * length p \<Longrightarrow> hexString E p = Inl ERR_STRING_TOO_LONG"
  by (simp add: hexString_def toString_hex_def Let_def)

subsection \<open>The bytes of an encoded frame\<close>

lemma buffer_from_hex_HEX:
  "d1 < 16 \<Longrightarrow> d2 < 16 \<Longrightarrow>
   buffer_from_hex (HEX d1 # HEX d2 # s) = word_of_nat (d1 * 16 + d2) # buffer_from_hex s"
  by (simp add: unhex_HEX)

lemma buffer_from_hex_payload: "buffer_from_hex (spec_payload_hex p) = p"
  by (induction p)
     (simp_all add: spec_payload_hex_def buffer_from_hex_HEX unat_byte_lt less_mult_imp_div_less
        del: buffer_from_hex.simps(1))

lemma buffer_from_hex_nibbles:
  "buffer_from_hex (hex_digit (unat b div 16) # hex_digit (unat b mod 16) # s)
     = b # buffer_from_hex s"
  by (simp add: unhex_hex_digit unat_byte_lt less_mult_imp_div_less)

lemma buffer_from_hex_hex_of_bytes: "buffer_from_hex (hex_of_bytes p) = p"
  by (induction p)
     (simp_all add: hex_of_bytes_def buffer_from_hex_nibbles del: buffer_from_hex.simps(1))

lemma two_digits_byte:
  "(word_of_nat (m div 16 mod 16 * 16 + m mod 16) :: byte) = word_of_nat m"
proof -
  have "m mod (16 * 16) = 16 * (m div 16 mod 16) + m mod 16"
    by (rule mod_mult2_eq)
  then have "(m div 16 mod 16 * 16 + m mod 16) mod 256 = m mod 256"
    by (simp add: mult.commute)
  then show ?thesis
    by (simp add: word_of_nat_eq_iff take_bit_eq_mod)
qed

lemma two_digits_pow:
  "(word_of_nat (n div 16 ^ Suc k mod 16 * 16 + n div 16 ^ k mod 16) :: byte)
     = word_of_nat (n div 16 ^ k)"
proof -
  have "n div 16 ^ Suc k = n div 16 ^ k div 16"
    by (simp only: power_Suc2 div_mult2_eq)
  then show ?thesis
    by (simp only: two_digits_byte)
qed

lemma buffer_from_hex_prefix:
  "buffer_from_hex (spec_length_prefix n @ s) = spec_len_bytes n @ buffer_from_hex s"
  using two_digits_pow [of n 8] two_digits_pow [of n 6] two_digits_pow [of n 4]
    two_digits_pow [of n 2] two_digits_pow [of n 0]
  by (simp add: spec_length_prefix_def spec_len_bytes_def buffer_from_hex_HEX
        del: buffer_from_hex.simps(1))

lemma frame_encode_bytes:
  "length p < 16 ^ 10 \<Longrightarrow> 10 + 2 * length p \<le> MAX_STRING_LENGTH E \<Longrightarrow>
   frame_encode E p = Inr (spec_wire_frame p)"
  by (simp add: frame_encode_def hexString_spec buffer_from_hex_prefix buffer_from_hex_payload
        spec_wire_frame_def)

lemma frame_encode_too_long:
  "MAX_STRING_LENGTH E < 2 * length p \<Longrightarrow> frame_encode E p = Inl ERR_STRING_TOO_LONG"
  by (simp add: frame_encode_def hexString_too_long)

section \<open>The parse loop\<close>

subsection \<open>The hexadecimal rendering of a chunk\<close>

lemma take_hex_of_bytes: "take (2 * k) (hex_of_bytes bs) = hex_of_bytes (take k bs)"
proof (induction bs arbitrary: k)
  case Nil
  show ?case by (simp add: hex_of_bytes_Nil)
next
  case (Cons b bs)
  show ?case
  proof (cases k)
    case 0
    then show ?thesis by (simp add: hex_of_bytes_Nil)
  next
    case (Suc j)
    with Cons.IH [of j] show ?thesis by (simp add: hex_of_bytes_Cons)
  qed
qed

lemma drop_hex_of_bytes: "drop (2 * k) (hex_of_bytes bs) = hex_of_bytes (drop k bs)"
proof (induction bs arbitrary: k)
  case Nil
  show ?case by (simp add: hex_of_bytes_Nil)
next
  case (Cons b bs)
  show ?case
  proof (cases k)
    case 0
    then show ?thesis by simp
  next
    case (Suc j)
    with Cons.IH [of j] show ?thesis by (simp add: hex_of_bytes_Cons)
  qed
qed

lemma unhex_hex_of_bytes: "c \<in> set (hex_of_bytes bs) \<Longrightarrow> unhex c \<noteq> None"
  by (induction bs)
     (auto simp: hex_of_bytes_Nil hex_of_bytes_Cons unhex_hex_digit unat_byte_lt
        less_mult_imp_div_less)

lemma foldl_hex_of_bytes:
  "foldl (\<lambda>acc c. acc * 16 + the (unhex c)) a (hex_of_bytes bs)
     = foldl (\<lambda>acc b. acc * 256 + unat b) a bs"
proof (induction bs arbitrary: a)
  case Nil
  show ?case by (simp add: hex_of_bytes_Nil)
next
  case (Cons b bs)
  have "(a * 16 + unat b div 16) * 16 + unat b mod 16 = a * 256 + unat b"
    by simp
  then have "foldl (\<lambda>acc c. acc * 16 + the (unhex c)) a (hex_of_bytes (b # bs))
               = foldl (\<lambda>acc c. acc * 16 + the (unhex c)) (a * 256 + unat b) (hex_of_bytes bs)"
    by (simp add: hex_of_bytes_Cons unhex_hex_digit unat_byte_lt less_mult_imp_div_less
          add.commute mult.commute)
  then show ?case
    by (simp only: Cons.IH foldl_Cons)
qed

lemma parseInt16_hex_of_bytes:
  "bs \<noteq> [] \<Longrightarrow> parseInt16 (hex_of_bytes bs) = Some (spec_be_nat bs)"
proof -
  assume ne: "bs \<noteq> []"
  have tw: "takeWhile (\<lambda>c. unhex c \<noteq> None) (hex_of_bytes bs) = hex_of_bytes bs"
    by (rule takeWhile_eq_all_conv [THEN iffD2]) (simp add: unhex_hex_of_bytes)
  from ne have "hex_of_bytes bs \<noteq> []"
    by (cases bs) (simp_all add: hex_of_bytes_Cons)
  then show ?thesis
    unfolding parseInt16_def spec_be_nat_def tw Let_def
    by (simp only: foldl_hex_of_bytes if_False)
qed

subsection \<open>The loop at an offset is the loop on the rest of the string\<close>

lemma slice_append_shift: "slice (pre @ rest) (length pre + a) (length pre + b) = slice rest a b"
  by (simp add: slice_def)

lemma parse_loop_shift:
  "parse_loop E (pre @ rest) (length pre + k) rs = parse_loop E rest k rs"
proof (induction E rest k rs rule: parse_loop.induct)
  case (1 E hex offset results)
  have s1: "slice (pre @ hex) (length pre + offset) (length pre + offset + 10)
              = slice hex offset (offset + 10)"
    using slice_append_shift [of pre hex offset "offset + 10"] by (simp add: add.assoc)
  have s2: "slice (pre @ hex) (length pre + offset + 10) (length pre + offset + 10 + d * 2)
              = slice hex (offset + 10) (offset + 10 + d * 2)" for d
    using slice_append_shift [of pre hex "offset + 10" "offset + 10 + d * 2"]
    by (simp add: add.assoc)
  show ?case
  proof (cases "offset < length hex \<and> \<not> offset + 10 > length hex")
    case False
    then show ?thesis
      by (auto simp: parse_loop.simps [of E "pre @ hex"] parse_loop.simps [of E hex offset])
  next
    case True
    show ?thesis
    proof (cases "parseInt16 (slice hex offset (offset + 10))")
      case None
      with True show ?thesis
        by (simp add: parse_loop.simps [of E "pre @ hex"] parse_loop.simps [of E hex offset] s1)
    next
      case (Some d)
      show ?thesis
      proof (cases "offset + 10 + d * 2 > length hex")
        case over: True
        with True Some show ?thesis
          by (simp add: parse_loop.simps [of E "pre @ hex"] parse_loop.simps [of E hex offset] s1)
      next
        case fits: False
        show ?thesis
        proof (cases "ResMessage_decode E (buffer_from_hex (slice hex (offset + 10) (offset + 10 + d * 2)))")
          case (Inl e)
          with True Some fits show ?thesis
            by (simp add: parse_loop.simps [of E "pre @ hex"] parse_loop.simps [of E hex offset]
                  s1 s2)
        next
          case (Inr msg)
          have "parse_loop E (pre @ hex) (length pre + (offset + 10 + d * 2)) (results @ [msg])
                  = parse_loop E hex (offset + 10 + d * 2) (results @ [msg])"
            using "1.IH" [OF _ _ Some _ Inr] True fits by simp
          then have "parse_loop E (pre @ hex) (length pre + offset + 10 + d * 2) (results @ [msg])
                  = parse_loop E hex (offset + 10 + d * 2) (results @ [msg])"
            by (simp only: add.assoc)
          with True Some fits Inr show ?thesis
            by (simp add: parse_loop.simps [of E "pre @ hex" "length pre + offset"]
                  parse_loop.simps [of E hex offset] s1 s2)
        qed
      qed
    qed
  qed
qed

subsection \<open>The loop on the rendering is the byte-level reading of the chunk\<close>

lemma parse_loop_frames:
  "parse_loop E (hex_of_bytes chunk) 0 rs = spec_decode_all E (spec_frames chunk) rs"
proof (induction chunk arbitrary: rs rule: spec_frames.induct)
  case (1 chunk)
  let ?hex = "hex_of_bytes chunk"
  show ?case
  proof (cases "length chunk < 5")
    case True
    then show ?thesis
      by (simp add: parse_loop.simps [of E ?hex] spec_frames.simps [of chunk] length_hex_of_bytes)
  next
    case long: False
    define n where "n = spec_be_nat (take 5 chunk)"
    have "slice ?hex 0 (0 + 10) = hex_of_bytes (take 5 chunk)"
      using take_hex_of_bytes [of 5 chunk] by (simp add: slice_def)
    moreover from long have "take 5 chunk \<noteq> []"
      by auto
    ultimately have len: "parseInt16 (slice ?hex 0 (0 + 10)) = Some n"
      by (simp add: parseInt16_hex_of_bytes n_def)
    show ?thesis
    proof (cases "length chunk < 5 + n")
      case True
      with long len show ?thesis
        by (simp add: parse_loop.simps [of E ?hex] spec_frames.simps [of chunk] length_hex_of_bytes
              n_def [symmetric])
    next
      case fits: False
      let ?p = "take n (drop 5 chunk)"
      have "slice ?hex (0 + 10) (0 + 10 + n * 2) = hex_of_bytes ?p"
        using take_hex_of_bytes [of n "drop 5 chunk"] drop_hex_of_bytes [of 5 chunk]
        by (simp add: slice_def mult.commute)
      then have payload: "buffer_from_hex (slice ?hex (0 + 10) (0 + 10 + n * 2)) = ?p"
        by (simp add: buffer_from_hex_hex_of_bytes)
      have unfold: "parse_loop E ?hex 0 rs =
          (case ResMessage_decode E ?p of
             Inl err \<Rightarrow> Inl err
           | Inr msg \<Rightarrow> parse_loop E ?hex (0 + 10 + n * 2) (rs @ [msg]))"
      proof -
        from long have "chunk \<noteq> []" by auto
        with long fits len payload show ?thesis
          by (subst parse_loop.simps) (simp add: length_hex_of_bytes)
      qed
      have split: "spec_frames chunk = ?p # spec_frames (drop (5 + n) chunk)"
        using long fits by (simp add: spec_frames.simps [of chunk] n_def [symmetric])
      have rest: "parse_loop E ?hex (0 + 10 + n * 2) rs' =
                    spec_decode_all E (spec_frames (drop (5 + n) chunk)) rs'" for rs'
      proof -
        have "?hex = hex_of_bytes (take (5 + n) chunk) @ hex_of_bytes (drop (5 + n) chunk)"
          by (simp add: hex_of_bytes_append [symmetric])
        moreover from fits have "length (hex_of_bytes (take (5 + n) chunk)) + 0 = 0 + 10 + n * 2"
          by (simp add: length_hex_of_bytes)
        ultimately have "parse_loop E ?hex (0 + 10 + n * 2) rs' =
            parse_loop E (hex_of_bytes (drop (5 + n) chunk)) 0 rs'"
          using parse_loop_shift [of E "hex_of_bytes (take (5 + n) chunk)"
                  "hex_of_bytes (drop (5 + n) chunk)" 0 rs']
          by simp
        with "1.IH" [OF long n_def fits] show ?thesis
          by simp
      qed
      from rest show ?thesis
        by (simp add: unfold split split: sum.splits)
    qed
  qed
qed

subsection \<open>Encoded frames are read back\<close>

lemma byte_split: "x mod (256 * c) = x div 256 mod c * 256 + x mod 256" for x :: nat
  by (metis mod_mult2_eq mult.commute)

lemma div_256_chain:
  "n div 256 div 256 = n div 2 ^ 16"
  "n div 256 div 256 div 256 = n div 2 ^ 24"
  "n div 256 div 256 div 256 div 256 = n div 2 ^ 32" for n :: nat
  by (simp_all add: div_mult2_eq [symmetric])

lemma mod_2_40: "n mod 2 ^ 40 = n div 256 mod 2 ^ 32 * 256 + n mod 256" for n :: nat
  using byte_split [of n "2 ^ 32"] by simp

lemma mod_2_32: "n div 256 mod 2 ^ 32 = n div 2 ^ 16 mod 2 ^ 24 * 256 + n div 256 mod 256"
  for n :: nat
  using byte_split [of "n div 256" "2 ^ 24"] by (simp add: div_256_chain)

lemma mod_2_24: "n div 2 ^ 16 mod 2 ^ 24 = n div 2 ^ 24 mod 2 ^ 16 * 256 + n div 2 ^ 16 mod 256"
  for n :: nat
  using byte_split [of "n div 2 ^ 16" "2 ^ 16"] div_256_chain [of n]
  by (simp add: div_mult2_eq [symmetric])

lemma mod_2_16: "n div 2 ^ 24 mod 2 ^ 16 = n div 2 ^ 32 mod 2 ^ 8 * 256 + n div 2 ^ 24 mod 256"
  for n :: nat
  using byte_split [of "n div 2 ^ 24" "2 ^ 8"] div_256_chain [of n]
  by (simp add: div_mult2_eq [symmetric])

lemma unat_byte_of_nat: "unat (word_of_nat m :: byte) = m mod 256"
  by (simp add: unat_of_nat)

lemma spec_be_nat_spec_len_bytes_sum:
  "spec_be_nat (spec_len_bytes n) =
     (((n div 2 ^ 32 mod 256 * 256 + n div 2 ^ 24 mod 256) * 256 + n div 2 ^ 16 mod 256) * 256
        + n div 2 ^ 8 mod 256) * 256 + n mod 256"
  by (simp add: spec_be_nat_def spec_len_bytes_def unat_byte_of_nat)

lemma five_bytes_sum:
  "n < 2 ^ 40 \<Longrightarrow>
   (((n div 2 ^ 32 mod 256 * 256 + n div 2 ^ 24 mod 256) * 256 + n div 2 ^ 16 mod 256) * 256
      + n div 2 ^ 8 mod 256) * 256 + n mod 256 = n" for n :: nat
  using mod_2_40 [of n] by (simp only: mod_2_32 mod_2_24 mod_2_16) simp

lemma spec_be_nat_spec_len_bytes: "n < 2 ^ 40 \<Longrightarrow> spec_be_nat (spec_len_bytes n) = n"
  by (simp only: spec_be_nat_spec_len_bytes_sum five_bytes_sum)

lemma spec_frames_frame:
  assumes "length p < 16 ^ 10"
  shows "spec_frames (spec_wire_frame p @ rest) = p # spec_frames rest"
proof -
  have "(16::nat) ^ 10 = 2 ^ 40" by simp
  with assms have "spec_be_nat (spec_len_bytes (length p)) = length p"
    by (simp only: spec_be_nat_spec_len_bytes)
  moreover have "length (spec_len_bytes (length p)) = 5"
    by (simp add: spec_len_bytes_def)
  ultimately show ?thesis
    by (simp add: spec_wire_frame_def spec_frames.simps [of "spec_len_bytes (length p) @ p @ rest"])
qed

lemma spec_frames_short: "length tail < 5 \<Longrightarrow> spec_frames tail = []"
  by (simp add: spec_frames.simps)

lemma spec_frames_frames:
  "\<forall>p\<in>set ps. length p < 16 ^ 10 \<Longrightarrow>
   spec_frames (concat (map spec_wire_frame ps) @ tail) = ps @ spec_frames tail"
  by (induction ps) (simp_all add: spec_frames_frame)

lemma spec_frames_Nil: "spec_frames [] = []"
  by (simp add: spec_frames.simps)

lemma spec_decode_all_ok:
  "list_all2 (\<lambda>p t. ResMessage_decode E p = Inr t) ps ts \<Longrightarrow>
   spec_decode_all E ps rs = Inr (rs @ ts)"
  by (induction ps ts arbitrary: rs rule: list_all2_induct) simp_all


section \<open>The sentinel pattern\<close>





section \<open>gunzip and chunkToUtf8String\<close>

lemma RegExp_test_not_global: "RegExp_test False li str = (regex_test str, li)"
  by (simp add: RegExp_test_def regex_test_def split: option.splits)

lemma gunzip_fst:
  "fst (gunzip E w chunk) =
     (case zlib_gunzip E (drop 5 chunk) of
        Inl err \<Rightarrow> Inr []
      | Inr decompressed \<Rightarrow>
          if regex_test (toString_utf8 E decompressed) then Inr []
          else Inr (toString_utf8 E decompressed))"
  by (simp add: gunzip_def regex_global_def RegExp_test_not_global Let_def split: sum.splits)


lemma gunzip_calls:
  "calls (snd (gunzip E w chunk)) = calls w @ [Call_gunzip chunk, Call_zlib (drop 5 chunk)]"
  by (simp add: gunzip_def Let_def split: sum.splits)

lemma gunzip_draws: "draws (snd (gunzip E w chunk)) = draws w"
  by (simp add: gunzip_def Let_def split: sum.splits)

lemma gunzip_lastIndex: "lastIndex (snd (gunzip E w chunk)) = lastIndex w"
  by (simp add: gunzip_def regex_global_def RegExp_test_not_global Let_def split: sum.splits)

lemma gunzip_fst_world: "fst (gunzip E w1 chunk) = fst (gunzip E w2 chunk)"
  by (simp add: gunzip_fst)

lemma try_block_frames:
  "2 * length chunk \<le> MAX_STRING_LENGTH E \<Longrightarrow>
   try_block E chunk = spec_decode_all E (spec_frames chunk) []"
  by (simp add: try_block_def toString_hex_def parse_loop_frames)

lemma try_block_too_long:
  "MAX_STRING_LENGTH E < 2 * length chunk \<Longrightarrow> try_block E chunk = Inl ERR_STRING_TOO_LONG"
  by (simp add: try_block_def toString_hex_def)

lemma chunkToUtf8String_too_long:
  "MAX_STRING_LENGTH E < 2 * length chunk \<Longrightarrow> chunkToUtf8String E w chunk = gunzip E w chunk"
  by (simp add: chunkToUtf8String_def try_block_too_long)

lemma chunkToUtf8String_frames:
  "2 * length chunk \<le> MAX_STRING_LENGTH E \<Longrightarrow>
   chunkToUtf8String E w chunk =
     (case spec_decode_all E (spec_frames chunk) [] of
        Inr results \<Rightarrow> if results = [] then gunzip E w chunk else (Inr (concat results), w)
      | Inl err \<Rightarrow> gunzip E w chunk)"
  by (simp add: chunkToUtf8String_def try_block_frames split: sum.splits)

lemma build_message_calls: "calls (snd (build_message E w msgs modelName)) = calls w"
  by (simp add: build_message_def Let_def)


text \<open>The request builder draws one identifier per message and two more.\<close>

lemma stringToHex_draws:
  "draws (snd (stringToHex E w msgs modelName)) = draws w + length msgs + 2"
  by (simp add: stringToHex_def build_message_def serialize_def Let_def split: option.splits)

text \<open>
  With the flag \<^verbatim>\<open>g\<close> the answer of \<^verbatim>\<open>test\<close> would depend on \<^verbatim>\<open>lastIndex\<close>: on the
  text below a first call answers true and moves \<^verbatim>\<open>lastIndex\<close> to the end, where a second
  call answers false.
\<close>

lemma RegExp_test_global_stateful:
  "RegExp_test True 0 (js ''<|BEGIN_SYSTEM|>x<|END_SYSTEM|>y<|BEGIN_USER|>z<|END_USER|>'') = (True, 59) \<and>
   RegExp_test True 59 (js ''<|BEGIN_SYSTEM|>x<|END_SYSTEM|>y<|BEGIN_USER|>z<|END_USER|>'') = (False, 0)"
  by (simp add: RegExp_test_def regex_search_def js_def BEGIN_SYSTEM_def END_SYSTEM_def
        BEGIN_USER_def END_USER_def)

section \<open>Chunks beyond the string cap\<close>

lemma length_spec_wire_frame: "length (spec_wire_frame p) = 5 + length p"
  by (simp add: spec_wire_frame_def spec_len_bytes_def)

lemma drop_5_spec_wire_frame: "drop 5 (spec_wire_frame p @ tail) = p @ tail"
  by (simp add: spec_wire_frame_def spec_len_bytes_def)

lemma sample_decode_long: "length p \<noteq> 1 \<Longrightarrow> ResMessage_decode sample_env p = Inr (map ucast p)"
  by (auto simp: sample_env_def)

lemma sample_gunzip_no_magic:
  "take 2 (drop 5 chunk) \<noteq> [0x1F, 0x8B] \<Longrightarrow> fst (gunzip sample_env w chunk) = Inr []"
  by (simp add: gunzip_fst sample_env_def)

text \<open>
  A chunk that starts with a frame and is too long for a rendering, in the sample
  environment: the \<^verbatim>\<open>try\<close> block throws, and \<^verbatim>\<open>gunzip\<close> finds no gzip stream after
  the first five bytes.
\<close>

lemma sample_oversize_frame:
  assumes "0x1fffffe8 < 2 * (5 + length p + length tail)"
    and "take 2 (p @ tail) \<noteq> [0x1F, 0x8B]"
  shows "try_block sample_env (spec_wire_frame p @ tail) = Inl ERR_STRING_TOO_LONG"
    and "chunkToUtf8String sample_env w (spec_wire_frame p @ tail)
           = gunzip sample_env w (spec_wire_frame p @ tail)"
    and "fst (chunkToUtf8String sample_env w (spec_wire_frame p @ tail)) = Inr []"
proof -
  let ?chunk = "spec_wire_frame p @ tail"
  from assms(1) have big: "MAX_STRING_LENGTH sample_env < 2 * length ?chunk"
    by (simp add: sample_env_def length_spec_wire_frame)
  then show "try_block sample_env ?chunk = Inl ERR_STRING_TOO_LONG"
    by (rule try_block_too_long)
  from big show g: "chunkToUtf8String sample_env w ?chunk = gunzip sample_env w ?chunk"
    by (rule chunkToUtf8String_too_long)
  have "take 2 (drop 5 ?chunk) \<noteq> [0x1F, 0x8B]"
    unfolding drop_5_spec_wire_frame by (rule assms(2))
  then have "fst (gunzip sample_env w ?chunk) = Inr []"
    by (rule sample_gunzip_no_magic)
  with g show "fst (chunkToUtf8String sample_env w ?chunk) = Inr []"
    by simp
qed

section \<open>The claims\<close>

text \<open>
  C1. For every payload shorter than \<open>16 ^ 10\<close> bytes whose \<open>10 + 2 * length\<close> hexadecimal
  characters fit in a string, the frame-encoding step of \<^verbatim>\<open>stringToHex\<close> returns the raw
  bytes read from the hexadecimal string made of the 10-character zero-padded uppercase
  rendering of the payload's length followed by the uppercase rendering of the payload's
  bytes.
\<close>

theorem frame_encode_spec:
  "length p < 16 ^ 10 \<Longrightarrow> 10 + 2 * length p \<le> MAX_STRING_LENGTH E \<Longrightarrow>
   frame_encode E p = Inr (spec_frame p)"
  by (simp add: frame_encode_def spec_frame_def hexString_spec)

theorem frame_encode_spec_witness:
  "length [0x68, 0x69 :: byte] < 16 ^ 10 \<and>
   10 + 2 * length [0x68, 0x69 :: byte] \<le> MAX_STRING_LENGTH sample_env \<and>
   frame_encode sample_env [0x68, 0x69] = Inr (spec_frame [0x68, 0x69]) \<and>
   frame_encode sample_env [0x68, 0x69] = Inr [0, 0, 0, 0, 2, 0x68, 0x69]"
proof -
  have h1: "length [0x68, 0x69 :: byte] < 16 ^ 10"
    by simp
  have h2: "10 + 2 * length [0x68, 0x69 :: byte] \<le> MAX_STRING_LENGTH sample_env"
    by (simp add: sample_env_def)
  have b: "frame_encode sample_env [0x68, 0x69] = Inr [0, 0, 0, 0, 2, 0x68, 0x69]"
    using frame_encode_bytes [OF h1 h2] by (simp add: spec_wire_frame_def spec_len_bytes_def)
  from frame_encode_spec [OF h1 h2] h1 h2 b show ?thesis
    by blast
qed

text \<open>
  A payload of \<open>2 ^ 28\<close> bytes is shorter than \<open>16 ^ 10\<close>, and its rendering of \<open>2 ^ 29\<close>
  characters is no string: line 55 throws and there is no frame.
\<close>

theorem frame_encode_spec_counterexample:
  "length (replicate (2 ^ 28) (0 :: byte)) < 16 ^ 10 \<and>
   frame_encode sample_env (replicate (2 ^ 28) 0) = Inl ERR_STRING_TOO_LONG"
proof -
  have "MAX_STRING_LENGTH sample_env < 2 * length (replicate (2 ^ 28) (0 :: byte))"
    by (simp add: sample_env_def)
  then have "frame_encode sample_env (replicate (2 ^ 28) 0) = Inl ERR_STRING_TOO_LONG"
    by (rule frame_encode_too_long)
  then show ?thesis
    by simp
qed

text \<open>
  C2. A chunk whose rendering of two characters per byte fits in a string and that is
  the concatenation of \<open>N\<close> complete frames, each payload decoding without error, yields
  exactly the \<open>N\<close> decoded texts in frame order, and the value returned is their
  concatenation.  For \<open>N = 0\<close> the chunk is empty and the value is what \<^verbatim>\<open>gunzip\<close> makes of
  it: the empty text, since \<^verbatim>\<open>zlib.gunzip\<close> rejects an empty input.
\<close>

theorem parse_complete_frames:
  assumes "list_all2 (\<lambda>p t. length p < 16 ^ 10 \<and> ResMessage_decode E p = Inr t) ps ts"
    and "ps \<noteq> [] \<or> (\<exists>e. zlib_gunzip E [] = Inl e)"
    and "2 * length (concat (map spec_wire_frame ps)) \<le> MAX_STRING_LENGTH E"
  shows "length ts = length ps \<and>
         try_block E (concat (map spec_wire_frame ps)) = Inr ts \<and>
         fst (chunkToUtf8String E w (concat (map spec_wire_frame ps))) = Inr (concat ts)"
proof -
  let ?chunk = "concat (map spec_wire_frame ps)"
  from assms(1) have len: "length ts = length ps"
    by (simp add: list_all2_lengthD)
  from assms(1) have short: "\<forall>p\<in>set ps. length p < 16 ^ 10"
    by (auto simp: list_all2_conv_all_nth in_set_conv_nth)
  from assms(1) have ok: "list_all2 (\<lambda>p t. ResMessage_decode E p = Inr t) ps ts"
    by (rule list_all2_mono) simp
  from spec_frames_frames [OF short, of "[]"] have frames: "spec_frames ?chunk = ps"
    by (simp add: spec_frames_short)
  with spec_decode_all_ok [OF ok, of "[]"]
  have results: "spec_decode_all E (spec_frames ?chunk) [] = Inr ts"
    by simp
  with assms(3) have loop: "try_block E ?chunk = Inr ts"
    by (simp only: try_block_frames)
  have "fst (chunkToUtf8String E w ?chunk) = Inr (concat ts)"
  proof (cases "ps = []")
    case True
    with assms(2) obtain e where "zlib_gunzip E [] = Inl e" by blast
    with True len results assms(3) show ?thesis
      by (simp add: chunkToUtf8String_frames gunzip_fst)
  next
    case False
    with len have "ts \<noteq> []" by auto
    with results assms(3) show ?thesis
      by (simp add: chunkToUtf8String_frames)
  qed
  with len loop show ?thesis by simp
qed

theorem parse_complete_frames_witness:
  "list_all2 (\<lambda>p t. length p < 16 ^ 10 \<and> ResMessage_decode sample_env p = Inr t)
     [[0x68, 0x69], [0x21]] [[0x68, 0x69], [0x21]] \<and>
   concat (map spec_wire_frame [[0x68, 0x69], [0x21 :: byte]])
     = [0, 0, 0, 0, 2, 0x68, 0x69, 0, 0, 0, 0, 1, 0x21] \<and>
   2 * length [0, 0, 0, 0, 2, 0x68, 0x69, 0, 0, 0, 0, 1, 0x21 :: byte]
     \<le> MAX_STRING_LENGTH sample_env \<and>
   try_block sample_env [0, 0, 0, 0, 2, 0x68, 0x69, 0, 0, 0, 0, 1, 0x21]
     = Inr [[0x68, 0x69], [0x21]] \<and>
   fst (chunkToUtf8String sample_env sample_world [0, 0, 0, 0, 2, 0x68, 0x69, 0, 0, 0, 0, 1, 0x21])
     = Inr [0x68, 0x69, 0x21]"
proof -
  have h: "list_all2 (\<lambda>p t. length p < 16 ^ 10 \<and> ResMessage_decode sample_env p = Inr t)
             [[0x68, 0x69], [0x21]] [[0x68, 0x69], [0x21]]"
    by (simp add: sample_env_def)
  have c: "concat (map spec_wire_frame [[0x68, 0x69], [0x21 :: byte]])
             = [0, 0, 0, 0, 2, 0x68, 0x69, 0, 0, 0, 0, 1, 0x21]"
    by (simp add: spec_wire_frame_def spec_len_bytes_def)
  have m: "2 * length [0, 0, 0, 0, 2, 0x68, 0x69, 0, 0, 0, 0, 1, 0x21 :: byte]
             \<le> MAX_STRING_LENGTH sample_env"
    by (simp add: sample_env_def)
  have n: "[[0x68, 0x69], [0x21 :: byte]] \<noteq> [] \<or> (\<exists>e. zlib_gunzip sample_env [] = Inl e)"
    by simp
  from parse_complete_frames [OF h n m [folded c], of sample_world, unfolded c]
  have "try_block sample_env [0, 0, 0, 0, 2, 0x68, 0x69, 0, 0, 0, 0, 1, 0x21]
          = Inr [[0x68, 0x69], [0x21]] \<and>
        fst (chunkToUtf8String sample_env sample_world
               [0, 0, 0, 0, 2, 0x68, 0x69, 0, 0, 0, 0, 1, 0x21])
          = Inr [0x68, 0x69, 0x21]"
    by simp
  with h c m show ?thesis
    by blast
qed

text \<open>
  One complete frame whose payload of \<open>2 ^ 28 - 1\<close> bytes decodes (a protobuf message
  with one string field, number 1, of 268435450 letters): the rendering of the chunk is no
  string, line 69 throws, and the \<^verbatim>\<open>catch\<close> block returns what \<^verbatim>\<open>gunzip\<close> makes of the
  chunk, here the empty text, and not the decoded text.
\<close>

theorem parse_complete_frames_counterexample:
  "list_all2 (\<lambda>p t. length p < 16 ^ 10 \<and> ResMessage_decode sample_env p = Inr t)
     [[0x0A, 0xFA, 0xFF, 0xFF, 0x7F] @ replicate 268435450 0x61]
     [[0x0A, 0xFA, 0xFF, 0xFF, 0x7F] @ replicate 268435450 0x61] \<and>
   try_block sample_env
     (concat (map spec_wire_frame [[0x0A, 0xFA, 0xFF, 0xFF, 0x7F] @ replicate 268435450 0x61]))
     = Inl ERR_STRING_TOO_LONG \<and>
   chunkToUtf8String sample_env sample_world
     (concat (map spec_wire_frame [[0x0A, 0xFA, 0xFF, 0xFF, 0x7F] @ replicate 268435450 0x61]))
     = gunzip sample_env sample_world
         (concat (map spec_wire_frame [[0x0A, 0xFA, 0xFF, 0xFF, 0x7F] @ replicate 268435450 0x61])) \<and>
   fst (chunkToUtf8String sample_env sample_world
     (concat (map spec_wire_frame [[0x0A, 0xFA, 0xFF, 0xFF, 0x7F] @ replicate 268435450 0x61])))
     = Inr [] \<and>
   fst (chunkToUtf8String sample_env sample_world
     (concat (map spec_wire_frame [[0x0A, 0xFA, 0xFF, 0xFF, 0x7F] @ replicate 268435450 0x61])))
     \<noteq> Inr (concat [[0x0A, 0xFA, 0xFF, 0xFF, 0x7F] @ replicate 268435450 0x61])"
proof -
  let ?p = "[0x0A, 0xFA, 0xFF, 0xFF, 0x7F] @ replicate 268435450 (0x61 :: byte)"
  let ?t = "[0x0A, 0xFA, 0xFF, 0xFF, 0x7F] @ replicate 268435450 (0x61 :: 16 word)"
  have c: "concat (map spec_wire_frame [?p]) = spec_wire_frame ?p @ []"
    by simp
  have d: "ResMessage_decode sample_env ?p = Inr ?t"
    using sample_decode_long [of ?p] by simp
  then have h: "list_all2 (\<lambda>p t. length p < 16 ^ 10 \<and> ResMessage_decode sample_env p = Inr t)
                  [?p] [?t]"
    by simp
  have s: "(0x1fffffe8 :: nat) < 2 * (5 + length ?p + length ([] :: byte list))"
    "take 2 (?p @ []) \<noteq> [0x1F, 0x8B]"
    by simp_all
  note o = sample_oversize_frame(1) [OF s, folded c]
    sample_oversize_frame(2) [OF s, of sample_world, folded c]
    sample_oversize_frame(3) [OF s, of sample_world, folded c]
  from o(3) have "fst (chunkToUtf8String sample_env sample_world (concat (map spec_wire_frame [?p])))
                    \<noteq> Inr (concat [?t])"
    by simp
  with h o show ?thesis
    by blast
qed







text \<open>
  C7. A chunk whose rendering fits in a string and that is made of one complete,
  decodable frame followed by fewer than 10 hexadecimal characters of data yields exactly
  the text of the first frame; the trailing data is dropped, nothing is thrown and
  \<^verbatim>\<open>gunzip\<close> is not called.
\<close>

theorem parse_truncated_second_prefix:
  assumes "length p < 16 ^ 10"
    and "ResMessage_decode E p = Inr t"
    and "length (hex_of_bytes tail) < 10"
    and "2 * length (spec_wire_frame p @ tail) \<le> MAX_STRING_LENGTH E"
  shows "try_block E (spec_wire_frame p @ tail) = Inr [t] \<and>
         chunkToUtf8String E w (spec_wire_frame p @ tail) = (Inr t, w)"
proof -
  from assms(3) have "length tail < 5"
    by (simp add: length_hex_of_bytes)
  then have "spec_frames (spec_wire_frame p @ tail) = [p]"
    by (simp add: spec_frames_frame [OF assms(1)] spec_frames_short)
  with assms(2) have "spec_decode_all E (spec_frames (spec_wire_frame p @ tail)) [] = Inr [t]"
    by simp
  then show ?thesis
    by (simp add: chunkToUtf8String_frames [OF assms(4)] try_block_frames [OF assms(4)])
qed

theorem parse_truncated_second_prefix_witness:
  "length [0x68, 0x69 :: byte] < 16 ^ 10 \<and>
   ResMessage_decode sample_env [0x68, 0x69] = Inr [0x68, 0x69] \<and>
   length (hex_of_bytes [0, 0, 0]) < 10 \<and>
   spec_wire_frame [0x68, 0x69] @ [0, 0, 0] = [0, 0, 0, 0, 2, 0x68, 0x69, 0, 0, 0] \<and>
   2 * length [0, 0, 0, 0, 2, 0x68, 0x69, 0, 0, 0 :: byte] \<le> MAX_STRING_LENGTH sample_env \<and>
   try_block sample_env [0, 0, 0, 0, 2, 0x68, 0x69, 0, 0, 0] = Inr [[0x68, 0x69]] \<and>
   chunkToUtf8String sample_env sample_world [0, 0, 0, 0, 2, 0x68, 0x69, 0, 0, 0]
     = (Inr [0x68, 0x69], sample_world)"
proof -
  have h1: "length [0x68, 0x69 :: byte] < 16 ^ 10"
    by simp
  have h2: "ResMessage_decode sample_env [0x68, 0x69] = Inr [0x68, 0x69]"
    by (simp add: sample_env_def)
  have h3: "length (hex_of_bytes [0, 0, 0]) < 10"
    by (simp add: length_hex_of_bytes)
  have c: "spec_wire_frame [0x68, 0x69] @ [0, 0, 0] = [0, 0, 0, 0, 2, 0x68, 0x69, 0, 0, 0]"
    by (simp add: spec_wire_frame_def spec_len_bytes_def)
  have h4: "2 * length [0, 0, 0, 0, 2, 0x68, 0x69, 0, 0, 0 :: byte] \<le> MAX_STRING_LENGTH sample_env"
    by (simp add: sample_env_def)
  from parse_truncated_second_prefix [OF h1 h2 h3 h4 [folded c], of sample_world, unfolded c]
    h1 h2 h3 h4 c
  show ?thesis
    by blast
qed

text \<open>
  A frame whose payload of \<open>2 ^ 28 - 1\<close> bytes decodes (a protobuf message with one string
  field, number 1), followed by three bytes: the rendering of the chunk is no string, line
  69 throws, and the \<^verbatim>\<open>catch\<close> block calls \<^verbatim>\<open>gunzip\<close> on the chunk and returns the empty
  text, not the text of the frame.
\<close>

theorem parse_truncated_second_prefix_counterexample:
  "length ([0x0A, 0xFA, 0xFF, 0xFF, 0x7F] @ replicate 268435450 (0x62 :: byte)) < 16 ^ 10 \<and>
   ResMessage_decode sample_env ([0x0A, 0xFA, 0xFF, 0xFF, 0x7F] @ replicate 268435450 0x62)
     = Inr ([0x0A, 0xFA, 0xFF, 0xFF, 0x7F] @ replicate 268435450 0x62) \<and>
   length (hex_of_bytes [0, 0, 0]) < 10 \<and>
   try_block sample_env
     (spec_wire_frame ([0x0A, 0xFA, 0xFF, 0xFF, 0x7F] @ replicate 268435450 0x62) @ [0, 0, 0])
     = Inl ERR_STRING_TOO_LONG \<and>
   chunkToUtf8String sample_env sample_world
     (spec_wire_frame ([0x0A, 0xFA, 0xFF, 0xFF, 0x7F] @ replicate 268435450 0x62) @ [0, 0, 0])
     = gunzip sample_env sample_world
         (spec_wire_frame ([0x0A, 0xFA, 0xFF, 0xFF, 0x7F] @ replicate 268435450 0x62) @ [0, 0, 0]) \<and>
   fst (chunkToUtf8String sample_env sample_world
     (spec_wire_frame ([0x0A, 0xFA, 0xFF, 0xFF, 0x7F] @ replicate 268435450 0x62) @ [0, 0, 0]))
     = Inr [] \<and>
   fst (chunkToUtf8String sample_env sample_world
     (spec_wire_frame ([0x0A, 0xFA, 0xFF, 0xFF, 0x7F] @ replicate 268435450 0x62) @ [0, 0, 0]))
     \<noteq> Inr ([0x0A, 0xFA, 0xFF, 0xFF, 0x7F] @ replicate 268435450 0x62)"
proof -
  let ?p = "[0x0A, 0xFA, 0xFF, 0xFF, 0x7F] @ replicate 268435450 (0x62 :: byte)"
  let ?t = "[0x0A, 0xFA, 0xFF, 0xFF, 0x7F] @ replicate 268435450 (0x62 :: 16 word)"
  have l: "length ?p < 16 ^ 10"
    by simp
  have d: "ResMessage_decode sample_env ?p = Inr ?t"
    using sample_decode_long [of ?p] by simp
  have h3: "length (hex_of_bytes [0, 0, 0]) < 10"
    by (simp add: length_hex_of_bytes)
  have s: "(0x1fffffe8 :: nat) < 2 * (5 + length ?p + length [0, 0, 0 :: byte])"
    "take 2 (?p @ [0, 0, 0]) \<noteq> [0x1F, 0x8B]"
    by simp_all
  note o = sample_oversize_frame(1) [OF s]
    sample_oversize_frame(2) [OF s, of sample_world]
    sample_oversize_frame(3) [OF s, of sample_world]
  from o(3) have "fst (chunkToUtf8String sample_env sample_world (spec_wire_frame ?p @ [0, 0, 0]))
                    \<noteq> Inr ?t"
    by simp
  with l d h3 o show ?thesis
    by blast
qed

text \<open>
  C8. When \<^verbatim>\<open>ChatMessage.verify\<close> reports a diagnostic for the message built from the
  request, \<^verbatim>\<open>stringToHex\<close> throws an error carrying that diagnostic and returns no bytes;
  the serializer has not been called.  A diagnostic is a non-empty string (the empty string
  is falsy in line 44).
\<close>

theorem stringToHex_validation_failure:
  assumes "ChatMessage_verify E (fst (build_message E w msgs modelName)) = Some errMsg"
    and "errMsg \<noteq> []"
  shows "fst (stringToHex E w msgs modelName) = Inl (Error errMsg) \<and>
         calls (snd (stringToHex E w msgs modelName)) = calls w"
  using assms build_message_calls [of E w msgs modelName]
  by (auto simp: stringToHex_def split: prod.splits)

theorem stringToHex_validation_failure_witness:
  "ChatMessage_verify sample_env
     (fst (build_message sample_env sample_world [[''role'' \<mapsto> JStr (js ''user'')]] JUndefined))
     = Some (js ''model.name: string expected'') \<and>
   js ''model.name: string expected'' \<noteq> [] \<and>
   fst (stringToHex sample_env sample_world [[''role'' \<mapsto> JStr (js ''user'')]] JUndefined)
     = Inl (Error (js ''model.name: string expected'')) \<and>
   calls (snd (stringToHex sample_env sample_world [[''role'' \<mapsto> JStr (js ''user'')]] JUndefined))
     = []"
proof -
  have h1: "ChatMessage_verify sample_env
     (fst (build_message sample_env sample_world [[''role'' \<mapsto> JStr (js ''user'')]] JUndefined))
     = Some (js ''model.name: string expected'')"
    by (simp add: sample_env_def build_message_def Let_def)
  have h2: "js ''model.name: string expected'' \<noteq> []"
    by (simp add: js_def)
  from stringToHex_validation_failure [OF h1 h2] h1 h2 show ?thesis
    by (simp add: sample_world_def)
qed

text \<open>
  C9. When the rendering of the chunk fits in a string, the chunk holds at least one
  complete frame and no frame of the chunk fails to decode, \<^verbatim>\<open>chunkToUtf8String\<close> returns
  the concatenation of the texts and leaves the world as it was: \<^verbatim>\<open>gunzip\<close> is not called,
  also when every text is empty and the result with them.
\<close>

theorem no_fallback_after_decoded_frames:
  assumes "2 * length chunk \<le> MAX_STRING_LENGTH E"
    and "spec_frames chunk \<noteq> []"
    and "list_all2 (\<lambda>p t. ResMessage_decode E p = Inr t) (spec_frames chunk) ts"
  shows "chunkToUtf8String E w chunk = (Inr (concat ts), w) \<and>
         ((\<forall>t\<in>set ts. t = []) \<longrightarrow> chunkToUtf8String E w chunk = (Inr [], w))"
proof -
  from assms(2,3) have "ts \<noteq> []"
    by (auto dest: list_all2_lengthD)
  with spec_decode_all_ok [OF assms(3), of "[]"]
  have r: "chunkToUtf8String E w chunk = (Inr (concat ts), w)"
    by (simp add: chunkToUtf8String_frames [OF assms(1)])
  have "concat ts = []" if "\<forall>t\<in>set ts. t = []"
    using that by simp
  with r show ?thesis by simp
qed

theorem no_fallback_after_decoded_frames_witness:
  "2 * length [0, 0, 0, 0, 0 :: byte] \<le> MAX_STRING_LENGTH sample_env \<and>
   spec_frames [0, 0, 0, 0, 0] = [[]] \<and>
   list_all2 (\<lambda>p t. ResMessage_decode sample_env p = Inr t) (spec_frames [0, 0, 0, 0, 0]) [[]] \<and>
   list_all (\<lambda>t. t = []) [[] :: jsstring] \<and>
   chunkToUtf8String sample_env sample_world [0, 0, 0, 0, 0] = (Inr [], sample_world)"
proof -
  have m: "2 * length [0, 0, 0, 0, 0 :: byte] \<le> MAX_STRING_LENGTH sample_env"
    by (simp add: sample_env_def)
  have f: "spec_frames [0, 0, 0, 0, 0] = [[]]"
    using spec_frames_frame [of "[]" "[]"]
    by (simp add: spec_wire_frame_def spec_len_bytes_def spec_frames_Nil)
  then have h1: "spec_frames [0, 0, 0, 0, 0] \<noteq> []"
    by simp
  have h2: "list_all2 (\<lambda>p t. ResMessage_decode sample_env p = Inr t)
              (spec_frames [0, 0, 0, 0, 0]) [[]]"
    by (simp add: f sample_env_def)
  from no_fallback_after_decoded_frames [OF m h1 h2, of sample_world] m f h2 show ?thesis
    by simp
qed

text \<open>
  One decoded frame is not enough.  In the first chunk below the first frame (an empty
  payload) decodes and the second does not; in the second chunk the only frame (a
  protobuf message with one string field, number 1, \<open>2 ^ 28 - 1\<close> bytes in all) decodes
  and the rendering of the chunk is no string.  In both the \<^verbatim>\<open>catch\<close> block calls
  \<^verbatim>\<open>gunzip\<close> on the whole chunk.
\<close>

theorem fallback_after_decoded_frame_counterexample:
  "spec_frames [0, 0, 0, 0, 0, 0, 0, 0, 0, 1, 0xFF] = [[], [0xFF]] \<and>
   ResMessage_decode sample_env [] = Inr [] \<and>
   ResMessage_decode sample_env [0xFF] = Inl (Error (js ''index out of range'')) \<and>
   chunkToUtf8String sample_env sample_world [0, 0, 0, 0, 0, 0, 0, 0, 0, 1, 0xFF]
     = gunzip sample_env sample_world [0, 0, 0, 0, 0, 0, 0, 0, 0, 1, 0xFF] \<and>
   calls (snd (chunkToUtf8String sample_env sample_world [0, 0, 0, 0, 0, 0, 0, 0, 0, 1, 0xFF]))
     = [Call_gunzip [0, 0, 0, 0, 0, 0, 0, 0, 0, 1, 0xFF], Call_zlib [0, 0, 0, 0, 1, 0xFF]] \<and>
   calls (snd (chunkToUtf8String sample_env sample_world [0, 0, 0, 0, 0, 0, 0, 0, 0, 1, 0xFF]))
     \<noteq> calls sample_world \<and>
   spec_frames (spec_wire_frame ([0x0A, 0xFA, 0xFF, 0xFF, 0x7F] @ replicate 268435450 0x63))
     = [[0x0A, 0xFA, 0xFF, 0xFF, 0x7F] @ replicate 268435450 0x63] \<and>
   ResMessage_decode sample_env ([0x0A, 0xFA, 0xFF, 0xFF, 0x7F] @ replicate 268435450 0x63)
     = Inr ([0x0A, 0xFA, 0xFF, 0xFF, 0x7F] @ replicate 268435450 0x63) \<and>
   chunkToUtf8String sample_env sample_world
     (spec_wire_frame ([0x0A, 0xFA, 0xFF, 0xFF, 0x7F] @ replicate 268435450 0x63))
     = gunzip sample_env sample_world
         (spec_wire_frame ([0x0A, 0xFA, 0xFF, 0xFF, 0x7F] @ replicate 268435450 0x63)) \<and>
   calls (snd (chunkToUtf8String sample_env sample_world
     (spec_wire_frame ([0x0A, 0xFA, 0xFF, 0xFF, 0x7F] @ replicate 268435450 0x63))))
     \<noteq> calls sample_world"
proof -
  have m: "2 * length [0, 0, 0, 0, 0, 0, 0, 0, 0, 1, 0xFF :: byte] \<le> MAX_STRING_LENGTH sample_env"
    by (simp add: sample_env_def)
  have f: "spec_frames [0, 0, 0, 0, 0, 0, 0, 0, 0, 1, 0xFF] = [[], [0xFF]]"
    using spec_frames_frames [of "[[], [0xFF]]" "[]"]
    by (simp add: spec_wire_frame_def spec_len_bytes_def spec_frames_Nil)
  have d1: "ResMessage_decode sample_env [] = Inr []"
    by (simp add: sample_env_def)
  have d2: "ResMessage_decode sample_env [0xFF] = Inl (Error (js ''index out of range''))"
    by (simp add: sample_env_def)
  have g: "chunkToUtf8String sample_env sample_world [0, 0, 0, 0, 0, 0, 0, 0, 0, 1, 0xFF]
     = gunzip sample_env sample_world [0, 0, 0, 0, 0, 0, 0, 0, 0, 1, 0xFF]"
    by (simp add: chunkToUtf8String_frames [OF m] f d1 d2)
  have c: "calls (snd (gunzip sample_env sample_world [0, 0, 0, 0, 0, 0, 0, 0, 0, 1, 0xFF]))
     = [Call_gunzip [0, 0, 0, 0, 0, 0, 0, 0, 0, 1, 0xFF], Call_zlib [0, 0, 0, 0, 1, 0xFF]]"
    by (simp add: gunzip_calls sample_world_def)
  have n: "[Call_gunzip [0, 0, 0, 0, 0, 0, 0, 0, 0, 1, 0xFF], Call_zlib [0, 0, 0, 0, 1, 0xFF]]
     \<noteq> calls sample_world"
    by (simp add: sample_world_def)
  let ?p = "[0x0A, 0xFA, 0xFF, 0xFF, 0x7F] @ replicate 268435450 (0x63 :: byte)"
  let ?t = "[0x0A, 0xFA, 0xFF, 0xFF, 0x7F] @ replicate 268435450 (0x63 :: 16 word)"
  have "length ?p < 16 ^ 10"
    by simp
  from spec_frames_frame [OF this, of "[]"] have f2: "spec_frames (spec_wire_frame ?p) = [?p]"
    by (simp add: spec_frames_Nil)
  have d3: "ResMessage_decode sample_env ?p = Inr ?t"
    using sample_decode_long [of ?p] by simp
  have s: "(0x1fffffe8 :: nat) < 2 * (5 + length ?p + length ([] :: byte list))"
    "take 2 (?p @ []) \<noteq> [0x1F, 0x8B]"
    by simp_all
  have e: "spec_wire_frame ?p @ [] = spec_wire_frame ?p"
    by simp
  note g2 = sample_oversize_frame(2) [OF s, of sample_world, unfolded e]
  have "calls (snd (gunzip sample_env sample_world (spec_wire_frame ?p))) \<noteq> calls sample_world"
    by (simp add: gunzip_calls)
  with g2 have n2: "calls (snd (chunkToUtf8String sample_env sample_world (spec_wire_frame ?p)))
                      \<noteq> calls sample_world"
    by simp
  from f d1 d2 g c n f2 d3 g2 n2 show ?thesis
    by (simp only: g c) simp
qed

text \<open>
  C10. The text returned by \<^verbatim>\<open>chunkToUtf8String\<close> is the same whatever the state it is
  called in (the random source, \<^verbatim>\<open>regex.lastIndex\<close>, the calls made before), and the call
  leaves the random source and \<^verbatim>\<open>regex.lastIndex\<close> as they were; so a second call on the
  same bytes, in the state the first call left, returns the same text.
\<close>

theorem chunkToUtf8String_deterministic:
  "fst (chunkToUtf8String E w1 chunk) = fst (chunkToUtf8String E w2 chunk) \<and>
   fst (chunkToUtf8String E (snd (chunkToUtf8String E w1 chunk)) chunk)
     = fst (chunkToUtf8String E w1 chunk) \<and>
   draws (snd (chunkToUtf8String E w1 chunk)) = draws w1 \<and>
   lastIndex (snd (chunkToUtf8String E w1 chunk)) = lastIndex w1"
proof -
  have a: "fst (chunkToUtf8String E w chunk) = fst (chunkToUtf8String E w' chunk)" for w w'
    using gunzip_fst_world [of E w chunk w']
    by (simp add: chunkToUtf8String_def split: sum.splits)
  have b: "draws (snd (chunkToUtf8String E w1 chunk)) = draws w1"
    by (simp add: chunkToUtf8String_def gunzip_draws split: sum.splits)
  have c: "lastIndex (snd (chunkToUtf8String E w1 chunk)) = lastIndex w1"
    by (simp add: chunkToUtf8String_def gunzip_lastIndex split: sum.splits)
  from a [of w1 w2] a [of "snd (chunkToUtf8String E w1 chunk)" w1] b c show ?thesis
    by simp
qed

end
